theory Spec2Isabelle
  imports Main "HOL-Library.Sublist" "HOL-Library.Word"
begin

section \<open>Cell values and rows\<close>

text \<open>
  A cell of a frame read by \<^verbatim>\<open>pd.read_csv\<close> is a missing value (\<^verbatim>\<open>NaN\<close>), a text, an
  integer, or a floating-point number. A column of whole numbers with an empty cell is read
  as floating-point numbers (3 becomes 3.0): \<open>Flt\<close> is a floating-point cell whose value
  is a whole number of 32 bits, signed, which the host language prints with all its digits
  and \<^verbatim>\<open>.0\<close>. Other floating-point values are not modelled. A row (a pandas Series) maps
  the column names of its frame to cells: \<^verbatim>\<open>'X' in row\<close> is \<open>row ''X'' \<noteq> None\<close>.
\<close>

datatype pyval = NaN | Str string | Num int | Flt "32 word"

type_synonym row = "string \<rightharpoonup> pyval"


definition isna :: "pyval \<Rightarrow> bool" where
  "isna v = (v = NaN)"

text \<open>\<^verbatim>\<open>row.get(key, default)\<close>\<close>

definition row_get :: "row \<Rightarrow> string \<Rightarrow> pyval \<Rightarrow> pyval" where
  "row_get r key dflt = (case r key of None \<Rightarrow> dflt | Some v \<Rightarrow> v)"


section \<open>String primitives of the host language\<close>

text \<open>
  A text is a list of characters with code points below 256. The whitespace that
  \<^verbatim>\<open>str.strip()\<close> removes is \<^verbatim>\<open>str.isspace()\<close>: below 256 these are the code points
  09 to 0D, 1C to 1F, 20, 85 (next line) and A0 (no-break space).
\<close>

definition is_space :: "char \<Rightarrow> bool" where
  "is_space c = (c \<in> set [CHR 0x09, CHR 0x0A, CHR 0x0B, CHR 0x0C, CHR 0x0D,
                          CHR 0x1C, CHR 0x1D, CHR 0x1E, CHR 0x1F, CHR 0x20,
                          CHR 0x85, CHR 0xA0])"

definition strip :: "string \<Rightarrow> string" where
  "strip s = rev (dropWhile is_space (rev (dropWhile is_space s)))"

text \<open>
  \<open>upper\<close> maps the letters a to z to A to Z and leaves every other character as it is.
  \<^verbatim>\<open>str.upper()\<close> does the same on these letters and on every character with no upper
  case; it sends the other characters below 256 to characters that are not ASCII (or, for
  DF, to \<^verbatim>\<open>SS\<close>). The code compares an upper-cased text only with the words
  \<^verbatim>\<open>IGNORE\<close>, \<^verbatim>\<open>POA&M\<close> and \<^verbatim>\<open>POAM\<close>, and on these tests the two agree.
\<close>

definition to_upper :: "char \<Rightarrow> char" where
  "to_upper c =
     (case map_of (zip ''abcdefghijklmnopqrstuvwxyz'' ''ABCDEFGHIJKLMNOPQRSTUVWXYZ'') c of
        Some u \<Rightarrow> u
      | None \<Rightarrow> c)"

definition upper :: "string \<Rightarrow> string" where
  "upper s = map to_upper s"

text \<open>\<^verbatim>\<open>s.replace(a, b)\<close> for single characters.\<close>

definition replace :: "char \<Rightarrow> char \<Rightarrow> string \<Rightarrow> string" where
  "replace a b s = map (\<lambda>c. if c = a then b else c) s"

text \<open>\<^verbatim>\<open>s.split(d)\<close> for a one-character separator: \<^verbatim>\<open>''.split(';') == ['']\<close>.\<close>

fun split :: "char \<Rightarrow> string \<Rightarrow> string list" where
  "split d [] = [[]]"
| "split d (c # cs) =
     (if c = d then [] # split d cs
      else (case split d cs of
              [] \<Rightarrow> [[c]]
            | p # ps \<Rightarrow> (c # p) # ps))"

text \<open>\<^verbatim>\<open>s.endswith('.')\<close> and \<^verbatim>\<open>sub in s\<close>.\<close>

definition endswith_period :: "string \<Rightarrow> bool" where
  "endswith_period s = (s \<noteq> [] \<and> last s = CHR ''.'')"

definition startswith :: "string \<Rightarrow> string \<Rightarrow> bool" where
  "startswith s p = (take (length p) s = p)"

fun str_in :: "string \<Rightarrow> string \<Rightarrow> bool" where
  "str_in sub [] = (sub = [])"
| "str_in sub (c # cs) = (startswith (c # cs) sub \<or> str_in sub cs)"

text \<open>\<^verbatim>\<open>str(v)\<close> of a cell.\<close>

fun digits :: "nat \<Rightarrow> string" where
  "digits n =
     (if n < 10 then [''0123456789'' ! n]
      else digits (n div 10) @ [''0123456789'' ! (n mod 10)])"

declare digits.simps [simp del]

definition show_int :: "int \<Rightarrow> string" where
  "show_int i = (if i < 0 then ''-'' @ digits (nat (- i)) else digits (nat i))"

fun py_str :: "pyval \<Rightarrow> string" where
  "py_str NaN = ''nan''"
| "py_str (Str s) = s"
| "py_str (Num i) = show_int i"
| "py_str (Flt w) = show_int (sint w) @ ''.0''"

text \<open>Truth value of a cell in a condition: only the empty text and zero are false.\<close>

fun truthy :: "pyval \<Rightarrow> bool" where
  "truthy NaN = True"
| "truthy (Str s) = (s \<noteq> [])"
| "truthy (Num i) = (i \<noteq> 0)"
| "truthy (Flt w) = (w \<noteq> 0)"

section \<open>The parser's state\<close>

record cmmc_parser =
  validation_errors :: "string list"
  validation_warnings :: "string list"
  evidence_map :: "string \<rightharpoonup> string list"

definition init :: cmmc_parser where
  "init = \<lparr>validation_errors = [], validation_warnings = [], evidence_map = Map.empty\<rparr>"

section \<open>\<^verbatim>\<open>parse_delimited_content\<close>\<close>

definition placeholders :: "string list" where
  "placeholders = ['''', ''header'', ''bullet_1'', ''bullet_2'', ''bullet1'', ''bullet2'']"

text \<open>The loop over the pieces of the split, with the list \<^verbatim>\<open>items\<close> it appends to.\<close>

fun collect_items :: "string list \<Rightarrow> string list \<Rightarrow> string list" where
  "collect_items [] items = items"
| "collect_items (piece # pieces) items =
     (let item = strip piece in
      if item \<noteq> [] \<and> item \<notin> set placeholders
      then collect_items pieces
             (items @ [if endswith_period item then strip (butlast item) else item])
      else collect_items pieces items)"

definition parse_delimited_content :: "pyval \<Rightarrow> string list" where
  "parse_delimited_content content =
     (if isna content \<or> content = Str [] then []
      else collect_items (split CHR '';'' (replace CHR ''|'' CHR '';'' (py_str content))) [])"

section \<open>\<^verbatim>\<open>format_evidence_entry\<close>\<close>

text \<open>\<^verbatim>\<open>'X' in row and not pd.isna(row['X']) and row['X'] != ''\<close>\<close>

definition has_value :: "row \<Rightarrow> string \<Rightarrow> bool" where
  "has_value r key = (case r key of None \<Rightarrow> False | Some v \<Rightarrow> \<not> isna v \<and> v \<noteq> Str [])"

definition format_evidence_entry :: "row \<Rightarrow> string" where
  "format_evidence_entry r =
     (let entry_parts = [];
          entry_parts =
            (if has_value r ''Current_Sharepoint_Link''
             then entry_parts
                    @ [''['' @ strip (py_str (row_get r ''Current_Sharepoint_Link'' NaN)) @ '']'']
             else entry_parts);
          entry_parts =
            (if has_value r ''Description''
             then (let description = strip (py_str (row_get r ''Description'' NaN)) in
                   if \<not> str_in ''IGNORE'' (upper description)
                   then entry_parts @ [description]
                   else entry_parts)
             else if has_value r ''File_Name''
             then entry_parts @ [strip (py_str (row_get r ''File_Name'' NaN))]
             else entry_parts)
      in if length entry_parts = 2 then entry_parts ! 0 @ '' - '' @ entry_parts ! 1
         else if entry_parts \<noteq> [] then entry_parts ! 0
         else [])"

section \<open>\<^verbatim>\<open>load_evidence_enrichment\<close>\<close>

text \<open>
  The function is modelled from the loop over the rows of the evidence frame on; reading
  the file and logging are left out.
\<close>

text \<open>Both mapping cells are missing values (a column the frame lacks reads as \<^verbatim>\<open>''\<close>).\<close>

definition no_mappings :: "row \<Rightarrow> bool" where
  "no_mappings r =
     (isna (row_get r ''Suggested_CMMC_Mappings'' (Str []))
      \<and> isna (row_get r ''Provided_CMMC_Mappings'' (Str [])))"

definition marked_ignore :: "row \<Rightarrow> bool" where
  "marked_ignore r =
     (case r ''Description'' of
        None \<Rightarrow> False
      | Some d \<Rightarrow> \<not> isna d \<and> str_in ''IGNORE'' (upper (py_str d)))"

definition cmmc_mappings :: "row \<Rightarrow> string list" where
  "cmmc_mappings r =
     (if has_value r ''Suggested_CMMC_Mappings''
      then parse_delimited_content (Str (py_str (row_get r ''Suggested_CMMC_Mappings'' NaN)))
      else if has_value r ''Provided_CMMC_Mappings''
      then parse_delimited_content (Str (py_str (row_get r ''Provided_CMMC_Mappings'' NaN)))
      else [])"

text \<open>The inner loop: append the entry to the list of every mapped control.\<close>

fun add_evidence :: "(string \<rightharpoonup> string list) \<Rightarrow> string list \<Rightarrow> string
    \<Rightarrow> (string \<rightharpoonup> string list)" where
  "add_evidence m [] entry = m"
| "add_evidence m (c # cs) entry =
     (let cmmc_id = strip c in
      if cmmc_id \<noteq> []
      then add_evidence
             (case m cmmc_id of
                None \<Rightarrow> m(cmmc_id \<mapsto> [entry])
              | Some es \<Rightarrow> m(cmmc_id \<mapsto> es @ [entry]))
             cs entry
      else add_evidence m cs entry)"

definition load_evidence_row :: "(string \<rightharpoonup> string list) \<Rightarrow> row \<Rightarrow> (string \<rightharpoonup> string list)" where
  "load_evidence_row m r =
     (if no_mappings r then m
      else if marked_ignore r then m
      else add_evidence m (cmmc_mappings r) (format_evidence_entry r))"

definition load_evidence_enrichment :: "cmmc_parser \<Rightarrow> row list \<Rightarrow> cmmc_parser" where
  "load_evidence_enrichment self evidence_df =
     self\<lparr>evidence_map := foldl load_evidence_row (evidence_map self) evidence_df\<rparr>"

section \<open>\<^verbatim>\<open>get_enriched_evidence_strings\<close>\<close>

text \<open>The loop that removes duplicates, with its set \<^verbatim>\<open>seen\<close> and its output list.\<close>

fun unique_loop :: "string list \<Rightarrow> string set \<Rightarrow> string list \<Rightarrow> string list" where
  "unique_loop [] seen unique_items = unique_items"
| "unique_loop (item # items) seen unique_items =
     (if item \<notin> seen then unique_loop items (insert item seen) (unique_items @ [item])
      else unique_loop items seen unique_items)"

definition get_enriched_evidence_strings :: "cmmc_parser \<Rightarrow> string \<Rightarrow> pyval \<Rightarrow> string list" where
  "get_enriched_evidence_strings self cmmc_id existing_evidence =
     (let evidence_items = [];
          evidence_items =
            (if truthy existing_evidence \<and> \<not> isna existing_evidence
                \<and> existing_evidence \<noteq> Str []
             then evidence_items @ parse_delimited_content existing_evidence
             else evidence_items);
          evidence_items =
            (case evidence_map self cmmc_id of
               Some es \<Rightarrow> evidence_items @ es
             | None \<Rightarrow> evidence_items)
      in unique_loop evidence_items {} [])"

section \<open>\<^verbatim>\<open>validate_csv_data\<close>\<close>








section \<open>Notions of the specification\<close>

text \<open>
  The definitions of this section follow the words of the specification; the theorems
  below compare the functions above with them.
\<close>

text \<open>Removing one trailing period and trimming again.\<close>

definition strip_trailing_period :: "string \<Rightarrow> string" where
  "strip_trailing_period s = (if endswith_period s then strip (butlast s) else s)"

definition is_placeholder :: "string \<Rightarrow> bool" where
  "is_placeholder s =
     (s \<in> set [''header'', ''bullet_1'', ''bullet_2'', ''bullet1'', ''bullet2''])"

text \<open>
  The normaliser as the specification words it: unify the delimiters, split, trim, drop
  the empty pieces and the placeholders, remove a trailing period.
\<close>

definition normalize_spec :: "string \<Rightarrow> string list" where
  "normalize_spec s =
     map strip_trailing_period
       (filter (\<lambda>p. p \<noteq> [] \<and> \<not> is_placeholder p)
          (map strip (split CHR '';'' (replace CHR ''|'' CHR '';'' s))))"

text \<open>Removing duplicates: every element stays at its first occurrence only.\<close>

fun keep_first :: "'a list \<Rightarrow> 'a list" where
  "keep_first [] = []"
| "keep_first (x # xs) = x # keep_first (filter (\<lambda>y. y \<noteq> x) xs)"

text \<open>The entries the index holds for a control, none for a control it does not know.\<close>

definition evidence_for :: "(string \<rightharpoonup> string list) \<Rightarrow> string \<Rightarrow> string list" where
  "evidence_for m cmmc_id = (case m cmmc_id of None \<Rightarrow> [] | Some es \<Rightarrow> es)"

text \<open>The control identifiers of a mapping field: normalised, trimmed, the empty ones dropped.\<close>

definition mapped_ids :: "string \<Rightarrow> string list" where
  "mapped_ids field =
     filter (\<lambda>i. i \<noteq> []) (map strip (parse_delimited_content (Str field)))"

text \<open>A text with no whitespace at either end.\<close>

definition stripped :: "string \<Rightarrow> bool" where
  "stripped s = (s = [] \<or> (\<not> is_space (hd s) \<and> \<not> is_space (last s)))"

text \<open>
  The parts of a display entry: the link in brackets, and the description, or the file name
  when there is no description. Link, description and file name are trimmed.
\<close>

definition link_part :: "row \<Rightarrow> string option" where
  "link_part r =
     (if has_value r ''Current_Sharepoint_Link''
      then Some (''['' @ strip (py_str (row_get r ''Current_Sharepoint_Link'' NaN)) @ '']'')
      else None)"

definition descriptive_part :: "row \<Rightarrow> string option" where
  "descriptive_part r =
     (if has_value r ''Description''
      then (if str_in ''IGNORE'' (upper (py_str (row_get r ''Description'' NaN))) then None
            else Some (strip (py_str (row_get r ''Description'' NaN))))
      else if has_value r ''File_Name''
      then Some (strip (py_str (row_get r ''File_Name'' NaN)))
      else None)"

definition format_spec :: "row \<Rightarrow> string" where
  "format_spec r =
     (case (link_part r, descriptive_part r) of
        (Some l, Some d) \<Rightarrow> l @ '' - '' @ d
      | (Some l, None) \<Rightarrow> l
      | (None, Some d) \<Rightarrow> d
      | (None, None) \<Rightarrow> [])"
















section \<open>Trimming\<close>

lemma last_dropWhile_nonempty: "dropWhile P xs \<noteq> [] \<Longrightarrow> last (dropWhile P xs) = last xs"
  by (induction xs) (auto split: if_splits)

lemma dropWhile_rev_nonempty: "dropWhile P (rev xs) \<noteq> [] \<Longrightarrow> xs \<noteq> []"
  by auto

lemma stripped_strip: "stripped (strip s)"
proof -
  let ?t = "dropWhile is_space s"
  let ?u = "dropWhile is_space (rev ?t)"
  show ?thesis
  proof (cases "?u = []")
    case True
    then show ?thesis by (simp add: stripped_def strip_def)
  next
    case False
    then have hu: "\<not> is_space (hd ?u)" by (rule hd_dropWhile)
    have t: "?t \<noteq> []"
      using False by (rule dropWhile_rev_nonempty)
    then have ht: "\<not> is_space (hd ?t)" by (rule hd_dropWhile)
    have "last ?u = last (rev ?t)" using False by (rule last_dropWhile_nonempty)
    also have "\<dots> = hd ?t" using t by (simp add: last_rev)
    finally have lu: "\<not> is_space (last ?u)" using ht by simp
    from False hu lu show ?thesis
      by (simp add: stripped_def strip_def hd_rev last_rev)
  qed
qed

lemma strip_id: "stripped s \<Longrightarrow> strip s = s"
proof (cases s)
  case Nil
  then show ?thesis by (simp add: strip_def)
next
  case (Cons c cs)
  assume "stripped s"
  with Cons have h: "\<not> is_space (hd s)" and l: "\<not> is_space (last s)" and ne: "s \<noteq> []"
    by (simp_all add: stripped_def)
  from h ne have 1: "dropWhile is_space s = s" by (cases s) simp_all
  from l ne have 2: "dropWhile is_space (rev s) = rev s"
    by (cases "rev s") (simp_all add: last_rev [symmetric] hd_rev)
  show ?thesis by (simp add: strip_def 1 2)
qed

lemma set_strip: "set (strip s) \<subseteq> set s"
proof
  fix x
  assume "x \<in> set (strip s)"
  then have "x \<in> set (dropWhile is_space (rev (dropWhile is_space s)))"
    by (simp add: strip_def)
  then have "x \<in> set (rev (dropWhile is_space s))" by (rule set_dropWhileD)
  then have "x \<in> set (dropWhile is_space s)" by simp
  then show "x \<in> set s" by (rule set_dropWhileD)
qed

lemma length_strip: "length (strip s) \<le> length s"
  unfolding strip_def
  by (metis length_dropWhile_le length_rev order_trans)

lemma strip_surrounded:
  "\<exists>a b. s = a @ strip s @ b \<and> list_all is_space a \<and> list_all is_space b"
proof -
  let ?t = "dropWhile is_space s"
  let ?a = "takeWhile is_space s"
  let ?b = "rev (takeWhile is_space (rev ?t))"
  have "?t = rev (dropWhile is_space (rev ?t)) @ rev (takeWhile is_space (rev ?t))"
    by (metis rev_append rev_rev_ident takeWhile_dropWhile_id)
  then have "?t = strip s @ ?b"
    by (simp only: strip_def)
  moreover have "s = ?a @ ?t" by simp
  ultimately have "s = ?a @ strip s @ ?b"
    by simp
  moreover have "list_all is_space ?a"
    by (auto simp: list_all_iff dest: set_takeWhileD)
  moreover have "list_all is_space ?b"
    by (auto simp: list_all_iff dest: set_takeWhileD)
  ultimately show ?thesis by blast
qed

lemma strip_is_infix: "\<exists>a b. s = a @ strip s @ b"
  using strip_surrounded by blast

section \<open>The normaliser\<close>

lemma collect_items_eq:
  "collect_items pieces items =
     items @ map strip_trailing_period
               (filter (\<lambda>p. p \<noteq> [] \<and> \<not> is_placeholder p) (map strip pieces))"
  by (induction pieces arbitrary: items)
     (simp_all add: Let_def strip_trailing_period_def is_placeholder_def placeholders_def)

lemma parse_Str_eq: "parse_delimited_content (Str s) = normalize_spec s"
  by (cases "s = []")
     (simp_all add: parse_delimited_content_def isna_def normalize_spec_def collect_items_eq
        replace_def strip_def)

text \<open>
  C4: on a text the normaliser returns what the pipeline of the specification returns, in
  the order of the input: every \<^verbatim>\<open>|\<close> replaced by \<^verbatim>\<open>;\<close>, split at \<^verbatim>\<open>;\<close>, each piece trimmed,
  the empty pieces and the placeholder tokens dropped, one trailing period removed from each
  survivor and the rest trimmed again. Trimming a text leaves the part of it that has
  whitespace neither at its start nor at its end, with nothing but whitespace around it. A
  missing value and the empty text give the empty list; the normaliser has no failing
  branch. \<^verbatim>\<open>"a|b;c"\<close> gives \<^verbatim>\<open>["a","b","c"]\<close>, and each placeholder token alone gives the
  empty list; the other examples have whitespace (a no-break space too), empty pieces,
  periods, and tokens that differ from a placeholder by case or by a letter.
\<close>

theorem normaliser_pipeline:
  "parse_delimited_content (Str s) = normalize_spec s
   \<and> stripped (strip p)
   \<and> (\<exists>a b. p = a @ strip p @ b \<and> list_all is_space a \<and> list_all is_space b)
   \<and> strip_trailing_period x
       = (if x \<noteq> [] \<and> last x = CHR ''.'' then strip (butlast x) else x)
   \<and> parse_delimited_content NaN = []
   \<and> parse_delimited_content (Str []) = []
   \<and> parse_delimited_content (Str ''a|b;c'') = [''a'', ''b'', ''c'']
   \<and> parse_delimited_content (Str ''  Access policy. ;; second item |third.'')
       = [''Access policy'', ''second item'', ''third'']
   \<and> parse_delimited_content (Str ''a .'') = [''a'']
   \<and> parse_delimited_content (Str ''a..'') = [''a.'']
   \<and> parse_delimited_content (Str (''a'' @ [CHR 0xA0])) = [''a'']
   \<and> parse_delimited_content (Str ''Header; BULLET_1 ;headers'')
       = [''Header'', ''BULLET_1'', ''headers'']
   \<and> parse_delimited_content (Str ''header'') = []
   \<and> parse_delimited_content (Str ''bullet_1'') = []
   \<and> parse_delimited_content (Str ''bullet_2'') = []
   \<and> parse_delimited_content (Str ''bullet1'') = []
   \<and> parse_delimited_content (Str ''bullet2'') = []"
proof -
  have tp: "strip_trailing_period x
       = (if x \<noteq> [] \<and> last x = CHR ''.'' then strip (butlast x) else x)"
    by (simp add: strip_trailing_period_def endswith_period_def)
  have ex: "parse_delimited_content (Str ''a|b;c'') = [''a'', ''b'', ''c'']"
    "parse_delimited_content (Str ''  Access policy. ;; second item |third.'')
       = [''Access policy'', ''second item'', ''third'']"
    "parse_delimited_content (Str ''a .'') = [''a'']"
    "parse_delimited_content (Str ''a..'') = [''a.'']"
    "parse_delimited_content (Str (''a'' @ [CHR 0xA0])) = [''a'']"
    "parse_delimited_content (Str ''Header; BULLET_1 ;headers'')
       = [''Header'', ''BULLET_1'', ''headers'']"
    by (simp_all add: parse_delimited_content_def isna_def replace_def placeholders_def
        endswith_period_def is_space_def strip_def)
  have ph: "parse_delimited_content (Str ''header'') = []"
    "parse_delimited_content (Str ''bullet_1'') = []"
    "parse_delimited_content (Str ''bullet_2'') = []"
    "parse_delimited_content (Str ''bullet1'') = []"
    "parse_delimited_content (Str ''bullet2'') = []"
    by (simp_all add: parse_delimited_content_def isna_def replace_def placeholders_def
        endswith_period_def is_space_def strip_def)
  have em: "parse_delimited_content NaN = []" "parse_delimited_content (Str []) = []"
    by (simp_all add: parse_delimited_content_def isna_def)
  from parse_Str_eq stripped_strip strip_surrounded tp em ex ph show ?thesis
    by (intro conjI)
qed

text \<open>
  C10: the input \<^verbatim>\<open>"header."\<close> is not a placeholder before its period is removed, and the
  placeholder test is not repeated afterwards: the normaliser returns \<^verbatim>\<open>["header"]\<close>, a
  placeholder token.
\<close>

theorem header_period_survives:
  "parse_delimited_content (Str ''header.'') = [''header'']
   \<and> ''header'' \<in> set placeholders
   \<and> parse_delimited_content (Str ''header'') = []"
  by (simp add: parse_delimited_content_def isna_def replace_def placeholders_def
      endswith_period_def is_space_def strip_def)


section \<open>Removing duplicates\<close>

lemma unique_loop_eq:
  "unique_loop xs seen acc = acc @ keep_first (filter (\<lambda>x. x \<notin> seen) xs)"
proof (induction xs arbitrary: seen acc)
  case Nil
  then show ?case by simp
next
  case (Cons x xs)
  have "filter (\<lambda>y. y \<noteq> x) (filter (\<lambda>y. y \<notin> seen) xs) = filter (\<lambda>y. y \<notin> insert x seen) xs"
    by (induction xs) auto
  with Cons show ?case by simp
qed

lemma set_keep_first: "set (keep_first xs) = set xs"
  by (induction xs rule: keep_first.induct) auto

lemma distinct_keep_first: "distinct (keep_first xs)"
  by (induction xs rule: keep_first.induct) (auto simp: set_keep_first)

lemma keep_first_filter: "keep_first (filter P xs) = filter P (keep_first xs)"
proof (induction xs rule: keep_first.induct)
  case 1
  then show ?case by simp
next
  case (2 x xs)
  have comm: "filter P (filter (\<lambda>y. y \<noteq> x) xs) = filter (\<lambda>y. y \<noteq> x) (filter P xs)"
    by (simp add: conj_commute)
  show ?case
  proof (cases "P x")
    case True
    then show ?thesis using 2 comm by simp
  next
    case False
    then have "filter P (filter (\<lambda>y. y \<noteq> x) xs) = filter P xs"
      by (induction xs) auto
    then show ?thesis using 2 False comm by simp
  qed
qed

lemma keep_first_append:
  "keep_first (xs @ ys) = keep_first xs @ filter (\<lambda>y. y \<notin> set xs) (keep_first ys)"
proof (induction xs arbitrary: ys rule: keep_first.induct)
  case 1
  then show ?case by simp
next
  case (2 x xs)
  have "filter (\<lambda>y. y \<notin> set (filter (\<lambda>y. y \<noteq> x) xs)) (filter (\<lambda>y. y \<noteq> x) zs)
        = filter (\<lambda>y. y \<notin> set (x # xs)) zs" for zs
    by (induction zs) auto
  then show ?case using 2 [of "filter (\<lambda>y. y \<noteq> x) ys"]
    by (simp add: keep_first_filter)
qed

section \<open>The lookup\<close>

lemma lookup_eq:
  "get_enriched_evidence_strings self cmmc_id ex =
     keep_first ((if truthy ex \<and> \<not> isna ex \<and> ex \<noteq> Str [] then parse_delimited_content ex else [])
                 @ evidence_for (evidence_map self) cmmc_id)"
  by (simp add: get_enriched_evidence_strings_def unique_loop_eq evidence_for_def
      split: option.splits)

text \<open>
  C2: for a text \<open>s\<close> as inline evidence, the lookup returns the normalised inline items
  followed by the entries of the index for the control, in their order, every string kept
  at its first occurrence only: the inline items come first, then the entries of the index
  that are not inline items. With no inline text it returns the entries of the index. The
  result has no duplicates. With no inline text (missing or empty) and no entry in the
  index the result is the empty list. The function has no failing branch.
\<close>

theorem lookup_inline_then_index:
  "get_enriched_evidence_strings self cmmc_id (Str s)
     = keep_first (parse_delimited_content (Str s) @ evidence_for (evidence_map self) cmmc_id)
   \<and> get_enriched_evidence_strings self cmmc_id (Str s)
     = keep_first (parse_delimited_content (Str s))
         @ filter (\<lambda>e. e \<notin> set (parse_delimited_content (Str s)))
             (keep_first (evidence_for (evidence_map self) cmmc_id))
   \<and> get_enriched_evidence_strings self cmmc_id NaN
     = keep_first (evidence_for (evidence_map self) cmmc_id)
   \<and> distinct (get_enriched_evidence_strings self cmmc_id (Str s))
   \<and> distinct (get_enriched_evidence_strings self cmmc_id NaN)
   \<and> (evidence_map self cmmc_id = None \<longrightarrow>
        get_enriched_evidence_strings self cmmc_id NaN = []
        \<and> get_enriched_evidence_strings self cmmc_id (Str []) = [])"
proof -
  have a: "get_enriched_evidence_strings self cmmc_id (Str s)
     = keep_first (parse_delimited_content (Str s) @ evidence_for (evidence_map self) cmmc_id)"
    by (cases "s = []") (simp_all add: lookup_eq isna_def parse_delimited_content_def)
  have b: "get_enriched_evidence_strings self cmmc_id NaN
     = keep_first (evidence_for (evidence_map self) cmmc_id)"
    by (simp add: lookup_eq isna_def)
  have c: "evidence_map self cmmc_id = None \<longrightarrow>
        get_enriched_evidence_strings self cmmc_id NaN = []
        \<and> get_enriched_evidence_strings self cmmc_id (Str []) = []"
    by (simp add: lookup_eq isna_def evidence_for_def)
  have d: "distinct (get_enriched_evidence_strings self cmmc_id (Str s))"
    "distinct (get_enriched_evidence_strings self cmmc_id NaN)"
    by (simp_all only: a b distinct_keep_first)
  have e: "get_enriched_evidence_strings self cmmc_id (Str s)
     = keep_first (parse_delimited_content (Str s))
         @ filter (\<lambda>e. e \<notin> set (parse_delimited_content (Str s)))
             (keep_first (evidence_for (evidence_map self) cmmc_id))"
    by (simp only: a keep_first_append)
  from a e b d c show ?thesis by blast
qed

text \<open>
  The lookup at a control the index does not know, and at a control with entries
  \<^verbatim>\<open>["b","x","b"]\<close> and the inline text \<^verbatim>\<open>"a;b;a"\<close>.
\<close>

theorem lookup_inline_then_index_witness:
  "evidence_map (init\<lparr>evidence_map := [''3.1.1'' \<mapsto> [''b'', ''x'', ''b'']]\<rparr>) ''3.1.2'' = None
   \<and> get_enriched_evidence_strings (init\<lparr>evidence_map := [''3.1.1'' \<mapsto> [''b'', ''x'', ''b'']]\<rparr>)
        ''3.1.2'' NaN = []
   \<and> get_enriched_evidence_strings (init\<lparr>evidence_map := [''3.1.1'' \<mapsto> [''b'', ''x'', ''b'']]\<rparr>)
        ''3.1.1'' (Str ''a;b;a'') = [''a'', ''b'', ''x'']"
  using lookup_inline_then_index
    [of "init\<lparr>evidence_map := [''3.1.1'' \<mapsto> [''b'', ''x'', ''b'']]\<rparr>" "''3.1.2''" "''a;b;a''"]
    lookup_inline_then_index
    [of "init\<lparr>evidence_map := [''3.1.1'' \<mapsto> [''b'', ''x'', ''b'']]\<rparr>" "''3.1.1''" "''a;b;a''"]
  by (simp add: init_def evidence_for_def parse_delimited_content_def isna_def replace_def
      placeholders_def endswith_period_def is_space_def strip_def Let_def)

section \<open>The end-to-end scenario\<close>

text \<open>
  C5: after the build over the single evidence row with link \<^verbatim>\<open>"http://s"\<close>, description
  \<^verbatim>\<open>"Backup logs"\<close> and primary mapping \<^verbatim>\<open>"3.4.1|3.4.2"\<close>, the lookup for \<^verbatim>\<open>"3.4.1"\<close>
  with the inline text \<^verbatim>\<open>"Manual review."\<close> returns
  \<^verbatim>\<open>["Manual review", "[http://s] - Backup logs"]\<close>, and the lookup for \<^verbatim>\<open>"3.4.2"\<close> with no
  inline text returns \<^verbatim>\<open>["[http://s] - Backup logs"]\<close>.
\<close>

theorem end_to_end_backup_logs:
  "get_enriched_evidence_strings
     (load_evidence_enrichment init
        [[''Current_Sharepoint_Link'' \<mapsto> Str ''http://s'',
          ''Description'' \<mapsto> Str ''Backup logs'',
          ''Suggested_CMMC_Mappings'' \<mapsto> Str ''3.4.1|3.4.2'']])
     ''3.4.1'' (Str ''Manual review.'')
     = [''Manual review'', ''[http://s] - Backup logs'']
   \<and> get_enriched_evidence_strings
     (load_evidence_enrichment init
        [[''Current_Sharepoint_Link'' \<mapsto> Str ''http://s'',
          ''Description'' \<mapsto> Str ''Backup logs'',
          ''Suggested_CMMC_Mappings'' \<mapsto> Str ''3.4.1|3.4.2'']])
     ''3.4.2'' NaN
     = [''[http://s] - Backup logs'']"
  by (simp add: get_enriched_evidence_strings_def load_evidence_enrichment_def init_def
      load_evidence_row_def no_mappings_def marked_ignore_def cmmc_mappings_def
      format_evidence_entry_def has_value_def row_get_def isna_def
      parse_delimited_content_def replace_def placeholders_def endswith_period_def
      is_space_def strip_def upper_def to_upper_def startswith_def Let_def)

section \<open>Building the index\<close>

lemma evidence_for_append_one:
  "evidence_for (case m i of None \<Rightarrow> m(i \<mapsto> [entry]) | Some es \<Rightarrow> m(i \<mapsto> es @ [entry])) k
     = evidence_for m k @ (if k = i then [entry] else [])"
  by (simp add: evidence_for_def split: option.splits)

lemma add_evidence_entries:
  "evidence_for (add_evidence m cs entry) k
     = evidence_for m k
       @ replicate (count_list (filter (\<lambda>i. i \<noteq> []) (map strip cs)) k) entry"
proof (induction cs arbitrary: m)
  case Nil
  then show ?case by simp
next
  case (Cons c cs)
  show ?case
  proof (cases "strip c = []")
    case True
    then show ?thesis by (simp add: Cons)
  next
    case False
    then show ?thesis
      by (simp add: Cons Let_def evidence_for_append_one replicate_append_same)
  qed
qed

lemma add_evidence_untouched:
  "k \<notin> set (filter (\<lambda>i. i \<noteq> []) (map strip cs)) \<Longrightarrow> add_evidence m cs entry k = m k"
proof (induction cs arbitrary: m)
  case Nil
  then show ?case by simp
next
  case (Cons c cs)
  then show ?case
    by (cases "strip c = []") (auto simp: Let_def split: option.splits)
qed

lemma has_value_upd_other:
  "key \<noteq> key' \<Longrightarrow> has_value (r(key' := v)) key = has_value r key"
  by (simp add: has_value_def)

lemma row_get_upd_other:
  "key \<noteq> key' \<Longrightarrow> row_get (r(key' := v)) key d = row_get r key d"
  by (simp add: row_get_def)

lemma format_upd_provided:
  "format_evidence_entry (r(''Provided_CMMC_Mappings'' := v)) = format_evidence_entry r"
  by (simp add: format_evidence_entry_def has_value_upd_other row_get_upd_other)

lemma marked_ignore_upd_provided:
  "marked_ignore (r(''Provided_CMMC_Mappings'' := v)) = marked_ignore r"
  by (simp add: marked_ignore_def)

lemma has_value_not_na:
  "has_value r key \<Longrightarrow> \<not> isna (row_get r key d)"
  by (auto simp: has_value_def row_get_def split: option.splits)

lemma load_row_primary:
  assumes "has_value r ''Suggested_CMMC_Mappings''"
  shows "load_evidence_row m r =
           (if marked_ignore r then m
            else add_evidence m
                   (parse_delimited_content
                      (Str (py_str (row_get r ''Suggested_CMMC_Mappings'' NaN))))
                   (format_evidence_entry r))"
  using assms has_value_not_na [OF assms, of "Str []"]
  by (simp add: load_evidence_row_def no_mappings_def cmmc_mappings_def)

lemma load_row_fallback:
  assumes "\<not> has_value r ''Suggested_CMMC_Mappings''" "has_value r ''Provided_CMMC_Mappings''"
  shows "load_evidence_row m r =
           (if marked_ignore r then m
            else add_evidence m
                   (parse_delimited_content
                      (Str (py_str (row_get r ''Provided_CMMC_Mappings'' NaN))))
                   (format_evidence_entry r))"
  using assms has_value_not_na [OF assms(2), of "Str []"]
  by (simp add: load_evidence_row_def no_mappings_def cmmc_mappings_def)

section \<open>Substrings\<close>

lemma str_in_self_prefix: "str_in sub (sub @ post)"
proof (cases "sub @ post")
  case Nil
  then show ?thesis by simp
next
  case (Cons a list)
  have "startswith (sub @ post) sub" by (simp add: startswith_def)
  then show ?thesis using Cons by simp
qed

lemma str_in_appendI: "str_in sub (pre @ sub @ post)"
  by (induction pre) (simp_all add: str_in_self_prefix)

lemma str_in_iff: "str_in sub s \<longleftrightarrow> (\<exists>pre post. s = pre @ sub @ post)"
proof
  assume "str_in sub s"
  then show "\<exists>pre post. s = pre @ sub @ post"
  proof (induction s)
    case Nil
    then show ?case by simp
  next
    case (Cons c cs)
    show ?case
    proof (cases "startswith (c # cs) sub")
      case True
      then have "c # cs = [] @ sub @ drop (length sub) (c # cs)"
        unfolding startswith_def by (metis append_Nil append_take_drop_id)
      then show ?thesis by blast
    next
      case False
      with Cons obtain pre post where "cs = pre @ sub @ post" by auto
      then have "c # cs = (c # pre) @ sub @ post" by simp
      then show ?thesis by blast
    qed
  qed
next
  assume "\<exists>pre post. s = pre @ sub @ post"
  then show "str_in sub s" by (auto simp: str_in_appendI)
qed

section \<open>Rows marked to be ignored\<close>

lemma foldl_skip_row:
  "load_evidence_row (foldl load_evidence_row m rows1) r = foldl load_evidence_row m rows1
   \<Longrightarrow> foldl load_evidence_row m (rows1 @ r # rows2) = foldl load_evidence_row m (rows1 @ rows2)"
  by simp

lemma load_row_marked_ignore: "marked_ignore r \<Longrightarrow> load_evidence_row m r = m"
  by (simp add: load_evidence_row_def)

text \<open>
  C3: a row whose description is a text containing a substring \<open>w\<close> that equals
  \<^verbatim>\<open>IGNORE\<close> up to case adds nothing to the index, whatever its mapping fields hold: the
  turn of the loop leaves the index as it is, and the build over a frame gives the index it
  gives over the frame without that row.
\<close>

theorem ignore_marked_rows_add_nothing:
  assumes "r ''Description'' = Some (Str (pre @ w @ post))" and "upper w = ''IGNORE''"
  shows "load_evidence_row m r = m
         \<and> load_evidence_enrichment self (rows1 @ r # rows2)
             = load_evidence_enrichment self (rows1 @ rows2)"
proof -
  have "upper (pre @ w @ post) = upper pre @ ''IGNORE'' @ upper post"
    using assms(2) by (simp add: upper_def)
  then have "str_in ''IGNORE'' (upper (pre @ w @ post))"
    by (simp only: str_in_appendI)
  then have mi: "marked_ignore r"
    using assms(1) by (simp add: marked_ignore_def isna_def)
  then show ?thesis
    by (simp add: load_row_marked_ignore load_evidence_enrichment_def)
qed

text \<open>The row of the specification: description \<^verbatim>\<open>"Old evidence - IGNORE"\<close>, mapped to 3.1.1.\<close>

theorem ignore_marked_rows_add_nothing_witness:
  "[''Description'' \<mapsto> Str ''Old evidence - IGNORE'', ''Suggested_CMMC_Mappings'' \<mapsto> Str ''3.1.1'']
      ''Description'' = Some (Str (''Old evidence - '' @ ''IGNORE'' @ []))
   \<and> upper ''IGNORE'' = ''IGNORE''
   \<and> load_evidence_row Map.empty
        [''Description'' \<mapsto> Str ''Old evidence - IGNORE'', ''Suggested_CMMC_Mappings'' \<mapsto> Str ''3.1.1'']
      = Map.empty
   \<and> evidence_map (load_evidence_enrichment init
        [[''Description'' \<mapsto> Str ''Old evidence - IGNORE'', ''Suggested_CMMC_Mappings'' \<mapsto> Str ''3.1.1'']])
      = Map.empty"
  using ignore_marked_rows_add_nothing
    [of "[''Description'' \<mapsto> Str ''Old evidence - IGNORE'', ''Suggested_CMMC_Mappings'' \<mapsto> Str ''3.1.1'']"
        "''Old evidence - ''" "''IGNORE''" "[]" Map.empty init "[]" "[]"]
  by (simp add: upper_def to_upper_def load_evidence_enrichment_def init_def)

section \<open>Precedence of the primary mapping\<close>

lemma load_row_entries:
  assumes "has_value r key"
    and "load_evidence_row m r =
           (if marked_ignore r then m
            else add_evidence m (parse_delimited_content (Str (py_str (row_get r key NaN))))
                   (format_evidence_entry r))"
  shows "evidence_for (load_evidence_row m r) k
           = evidence_for m k
             @ replicate (if marked_ignore r then 0
                          else count_list (mapped_ids (py_str (row_get r key NaN))) k)
                 (format_evidence_entry r)"
  using assms(2) by (simp add: add_evidence_entries mapped_ids_def)

text \<open>
  C1: for a row whose primary mapping field is present and not empty, the turn of the loop
  does not depend on the secondary field (any value of it, or its absence, gives the same
  index, for one row and for the build over a frame); the row's entry is appended to the
  list of a control once for each occurrence of the control among the identifiers of the
  primary field (not at all if the row is marked to be ignored), and a control that is not
  among them keeps what the index held. Only a row whose primary field is absent or empty
  has its entry appended under the identifiers of the secondary field.
\<close>

theorem primary_mapping_precedence:
  "(has_value r ''Suggested_CMMC_Mappings'' \<longrightarrow>
      load_evidence_row m (r(''Provided_CMMC_Mappings'' := sec)) = load_evidence_row m r
      \<and> load_evidence_enrichment self (rows1 @ r(''Provided_CMMC_Mappings'' := sec) # rows2)
          = load_evidence_enrichment self (rows1 @ r # rows2)
      \<and> (\<forall>k. evidence_for (load_evidence_row m r) k
              = evidence_for m k
                @ replicate
                    (if marked_ignore r then 0
                     else count_list
                            (mapped_ids (py_str (row_get r ''Suggested_CMMC_Mappings'' NaN))) k)
                    (format_evidence_entry r))
      \<and> (\<forall>k. k \<notin> set (mapped_ids (py_str (row_get r ''Suggested_CMMC_Mappings'' NaN)))
              \<longrightarrow> load_evidence_row m r k = m k))
   \<and> (\<not> has_value r ''Suggested_CMMC_Mappings'' \<and> has_value r ''Provided_CMMC_Mappings'' \<longrightarrow>
        (\<forall>k. evidence_for (load_evidence_row m r) k
              = evidence_for m k
                @ replicate
                    (if marked_ignore r then 0
                     else count_list
                            (mapped_ids (py_str (row_get r ''Provided_CMMC_Mappings'' NaN))) k)
                    (format_evidence_entry r)))"
proof (intro conjI impI allI)
  assume p: "has_value r ''Suggested_CMMC_Mappings''"
  then have p': "has_value (r(''Provided_CMMC_Mappings'' := sec)) ''Suggested_CMMC_Mappings''"
    by (simp add: has_value_upd_other)
  show same: "load_evidence_row m (r(''Provided_CMMC_Mappings'' := sec)) = load_evidence_row m r"
    for m
    by (simp add: load_row_primary [OF p] load_row_primary [OF p'] format_upd_provided
        marked_ignore_upd_provided row_get_upd_other)
  show "load_evidence_enrichment self (rows1 @ r(''Provided_CMMC_Mappings'' := sec) # rows2)
          = load_evidence_enrichment self (rows1 @ r # rows2)"
    by (simp add: load_evidence_enrichment_def same)
  show "evidence_for (load_evidence_row m r) k
              = evidence_for m k
                @ replicate
                    (if marked_ignore r then 0
                     else count_list
                            (mapped_ids (py_str (row_get r ''Suggested_CMMC_Mappings'' NaN))) k)
                    (format_evidence_entry r)" for k
    by (rule load_row_entries [OF p load_row_primary [OF p]])
  show "load_evidence_row m r k = m k"
    if "k \<notin> set (mapped_ids (py_str (row_get r ''Suggested_CMMC_Mappings'' NaN)))" for k
    using that by (simp add: load_row_primary [OF p] mapped_ids_def add_evidence_untouched)
next
  fix k
  assume a: "\<not> has_value r ''Suggested_CMMC_Mappings'' \<and> has_value r ''Provided_CMMC_Mappings''"
  then have n: "\<not> has_value r ''Suggested_CMMC_Mappings''"
    and q: "has_value r ''Provided_CMMC_Mappings''" by simp_all
  show "evidence_for (load_evidence_row m r) k
              = evidence_for m k
                @ replicate
                    (if marked_ignore r then 0
                     else count_list
                            (mapped_ids (py_str (row_get r ''Provided_CMMC_Mappings'' NaN))) k)
                    (format_evidence_entry r)"
    by (rule load_row_entries [OF q load_row_fallback [OF n q]])
qed


text \<open>
  The row of the specification, primary mapping 3.1.1 and secondary mapping 3.1.2, and the
  same row with a missing primary mapping.
\<close>

theorem primary_mapping_precedence_witness:
  "has_value [''Description'' \<mapsto> Str ''Policy doc'', ''Suggested_CMMC_Mappings'' \<mapsto> Str ''3.1.1'',
              ''Provided_CMMC_Mappings'' \<mapsto> Str ''3.1.2''] ''Suggested_CMMC_Mappings''
   \<and> evidence_for
        (load_evidence_row Map.empty
           [''Description'' \<mapsto> Str ''Policy doc'', ''Suggested_CMMC_Mappings'' \<mapsto> Str ''3.1.1'',
            ''Provided_CMMC_Mappings'' \<mapsto> Str ''3.1.2'']) ''3.1.1'' = [''Policy doc'']
   \<and> load_evidence_row Map.empty
        [''Description'' \<mapsto> Str ''Policy doc'', ''Suggested_CMMC_Mappings'' \<mapsto> Str ''3.1.1'',
         ''Provided_CMMC_Mappings'' \<mapsto> Str ''3.1.2''] ''3.1.2'' = None
   \<and> \<not> has_value [''Description'' \<mapsto> Str ''Policy doc'', ''Suggested_CMMC_Mappings'' \<mapsto> NaN,
                ''Provided_CMMC_Mappings'' \<mapsto> Str ''3.1.2''] ''Suggested_CMMC_Mappings''
   \<and> has_value [''Description'' \<mapsto> Str ''Policy doc'', ''Suggested_CMMC_Mappings'' \<mapsto> NaN,
                ''Provided_CMMC_Mappings'' \<mapsto> Str ''3.1.2''] ''Provided_CMMC_Mappings''
   \<and> evidence_for
        (load_evidence_row Map.empty
           [''Description'' \<mapsto> Str ''Policy doc'', ''Suggested_CMMC_Mappings'' \<mapsto> NaN,
            ''Provided_CMMC_Mappings'' \<mapsto> Str ''3.1.2'']) ''3.1.2'' = [''Policy doc'']"
  using primary_mapping_precedence
    [of "[''Description'' \<mapsto> Str ''Policy doc'', ''Suggested_CMMC_Mappings'' \<mapsto> Str ''3.1.1'',
          ''Provided_CMMC_Mappings'' \<mapsto> Str ''3.1.2'']" Map.empty None init "[]" "[]"]
    primary_mapping_precedence
    [of "[''Description'' \<mapsto> Str ''Policy doc'', ''Suggested_CMMC_Mappings'' \<mapsto> NaN,
          ''Provided_CMMC_Mappings'' \<mapsto> Str ''3.1.2'']" Map.empty None init "[]" "[]"]
  by (simp add: has_value_def isna_def marked_ignore_def mapped_ids_def
      format_evidence_entry_def row_get_def evidence_for_def
      parse_delimited_content_def replace_def placeholders_def endswith_period_def
      is_space_def strip_def upper_def to_upper_def startswith_def Let_def)

section \<open>Empty display entries\<close>

lemma not_has_value_not_ignored:
  "\<not> has_value r ''Description'' \<Longrightarrow> \<not> marked_ignore r"
  by (auto simp: has_value_def marked_ignore_def isna_def upper_def split: option.splits)

lemma format_nothing:
  "\<not> has_value r ''Current_Sharepoint_Link'' \<Longrightarrow> \<not> has_value r ''Description''
   \<Longrightarrow> \<not> has_value r ''File_Name'' \<Longrightarrow> format_evidence_entry r = []"
  by (simp add: format_evidence_entry_def)

lemma lookup_contains_index:
  "set (evidence_for (evidence_map self) k) \<subseteq> set (get_enriched_evidence_strings self k ex)"
  by (simp add: lookup_eq set_keep_first)

lemma lookup_distinct: "distinct (get_enriched_evidence_strings self k ex)"
  by (simp only: lookup_eq distinct_keep_first)

text \<open>
  C9: the build does not drop an empty display entry. For a row with a primary mapping and
  with no link, no description and no file name, the formatter returns the empty string,
  the build appends it to the list of every mapped control, and a lookup for such a control
  returns a list that contains the empty string and has no duplicates.
\<close>

theorem empty_entries_are_kept:
  assumes "\<not> has_value r ''Current_Sharepoint_Link''"
    and "\<not> has_value r ''Description''"
    and "\<not> has_value r ''File_Name''"
    and "has_value r ''Suggested_CMMC_Mappings''"
    and "k \<in> set (mapped_ids (py_str (row_get r ''Suggested_CMMC_Mappings'' NaN)))"
  shows "format_evidence_entry r = []
         \<and> evidence_for (evidence_map (load_evidence_enrichment self [r])) k
             = evidence_for (evidence_map self) k
               @ replicate
                   (count_list (mapped_ids (py_str (row_get r ''Suggested_CMMC_Mappings'' NaN))) k)
                   []
         \<and> 0 < count_list (mapped_ids (py_str (row_get r ''Suggested_CMMC_Mappings'' NaN))) k
         \<and> [] \<in> set (evidence_for (evidence_map (load_evidence_enrichment self [r])) k)
         \<and> [] \<in> set (get_enriched_evidence_strings (load_evidence_enrichment self [r]) k ex)
         \<and> distinct (get_enriched_evidence_strings (load_evidence_enrichment self [r]) k ex)"
proof -
  let ?ids = "mapped_ids (py_str (row_get r ''Suggested_CMMC_Mappings'' NaN))"
  let ?self' = "load_evidence_enrichment self [r]"
  have f: "format_evidence_entry r = []"
    using assms(1-3) by (rule format_nothing)
  have ni: "\<not> marked_ignore r"
    using assms(2) by (rule not_has_value_not_ignored)
  have e: "evidence_for (evidence_map ?self') k
             = evidence_for (evidence_map self) k @ replicate (count_list ?ids k) []"
    using load_row_entries [OF assms(4) load_row_primary [OF assms(4)], of "evidence_map self" k]
    by (simp add: load_evidence_enrichment_def ni f)
  have c: "0 < count_list ?ids k"
    using assms(5) count_list_0_iff [of "?ids" k] by auto
  then have m: "[] \<in> set (evidence_for (evidence_map ?self') k)"
    by (simp add: e)
  then have l: "[] \<in> set (get_enriched_evidence_strings ?self' k ex)"
    using lookup_contains_index by blast
  from f e c m l lookup_distinct show ?thesis by blast
qed

text \<open>A row with nothing but the primary mapping 3.1.1.\<close>

theorem empty_entries_are_kept_witness:
  "\<not> has_value [''Suggested_CMMC_Mappings'' \<mapsto> Str ''3.1.1''] ''Current_Sharepoint_Link''
   \<and> \<not> has_value [''Suggested_CMMC_Mappings'' \<mapsto> Str ''3.1.1''] ''Description''
   \<and> \<not> has_value [''Suggested_CMMC_Mappings'' \<mapsto> Str ''3.1.1''] ''File_Name''
   \<and> has_value [''Suggested_CMMC_Mappings'' \<mapsto> Str ''3.1.1''] ''Suggested_CMMC_Mappings''
   \<and> ''3.1.1'' \<in> set (mapped_ids ''3.1.1'')
   \<and> format_evidence_entry [''Suggested_CMMC_Mappings'' \<mapsto> Str ''3.1.1''] = []
   \<and> evidence_map (load_evidence_enrichment init [[''Suggested_CMMC_Mappings'' \<mapsto> Str ''3.1.1'']])
        ''3.1.1'' = Some [[]]
   \<and> get_enriched_evidence_strings
        (load_evidence_enrichment init [[''Suggested_CMMC_Mappings'' \<mapsto> Str ''3.1.1'']])
        ''3.1.1'' NaN = [[]]"
  using empty_entries_are_kept
    [of "[''Suggested_CMMC_Mappings'' \<mapsto> Str ''3.1.1'']" "''3.1.1''" init NaN]
  by (simp add: has_value_def isna_def marked_ignore_def mapped_ids_def no_mappings_def
      cmmc_mappings_def load_evidence_row_def load_evidence_enrichment_def init_def
      get_enriched_evidence_strings_def
      format_evidence_entry_def row_get_def evidence_for_def
      parse_delimited_content_def replace_def placeholders_def endswith_period_def
      is_space_def strip_def upper_def to_upper_def startswith_def Let_def)

section \<open>Normalising an item again\<close>

lemma split_pieces: "p \<in> set (split d s) \<Longrightarrow> set p \<subseteq> set s - {d}"
proof (induction s arbitrary: p)
  case Nil
  then show ?case by simp
next
  case (Cons c cs)
  show ?case
  proof (cases "c = d")
    case True
    with Cons show ?thesis by auto
  next
    case False
    show ?thesis
    proof (cases "split d cs")
      case Nil
      with Cons False show ?thesis by auto
    next
      case (Cons q qs)
      with Cons.prems False have "p = c # q \<or> p \<in> set qs" by auto
      moreover have "set q \<subseteq> set cs - {d}" using Cons.IH [of q] Cons by simp
      moreover have "p \<in> set qs \<Longrightarrow> set p \<subseteq> set cs - {d}" using Cons.IH [of p] Cons by simp
      ultimately show ?thesis using False by auto
    qed
  qed
qed

lemma split_no_delimiter: "d \<notin> set s \<Longrightarrow> split d s = [s]"
  by (induction s) auto

lemma replace_absent: "a \<notin> set s \<Longrightarrow> replace a b s = s"
  by (induction s) (auto simp: replace_def)

lemma set_replace: "a \<noteq> b \<Longrightarrow> a \<notin> set (replace a b s)"
  by (auto simp: replace_def)


lemma parse_eq:
  "parse_delimited_content v = (if isna v then [] else normalize_spec (py_str v))"
proof (cases "isna v \<or> v = Str []")
  case True
  then show ?thesis
    by (auto simp: parse_delimited_content_def normalize_spec_def replace_def strip_def)
next
  case False
  then show ?thesis
    by (simp add: parse_delimited_content_def normalize_spec_def collect_items_eq)
qed

lemma stripped_strip_trailing_period:
  "stripped p \<Longrightarrow> stripped (strip_trailing_period p)"
  by (simp add: strip_trailing_period_def stripped_strip)

lemma set_strip_trailing_period: "set (strip_trailing_period p) \<subseteq> set p"
proof (cases "endswith_period p")
  case True
  have "set (strip (butlast p)) \<subseteq> set (butlast p)" by (rule set_strip)
  also have "\<dots> \<subseteq> set p" by (auto dest: in_set_butlastD)
  finally show ?thesis using True by (simp add: strip_trailing_period_def)
next
  case False
  then show ?thesis by (simp add: strip_trailing_period_def)
qed

lemma normalised_item:
  assumes "x \<in> set (parse_delimited_content v)"
  shows "stripped x \<and> CHR '';'' \<notin> set x \<and> CHR ''|'' \<notin> set x"
proof -
  from assms have nn: "\<not> isna v" and x: "x \<in> set (normalize_spec (py_str v))"
    by (auto simp: parse_eq split: if_splits)
  let ?s = "replace CHR ''|'' CHR '';'' (py_str v)"
  from x obtain q where q: "q \<in> set (split CHR '';'' ?s)" and xq: "x = strip_trailing_period (strip q)"
    by (auto simp: normalize_spec_def)
  have "set q \<subseteq> set ?s - {CHR '';''}" using q by (rule split_pieces)
  moreover have "CHR ''|'' \<notin> set ?s" by (rule set_replace) simp
  ultimately have cq: "CHR '';'' \<notin> set q \<and> CHR ''|'' \<notin> set q" by auto
  have "set x \<subseteq> set q"
    using set_strip_trailing_period [of "strip q"] set_strip [of q] xq by blast
  with cq have "CHR '';'' \<notin> set x \<and> CHR ''|'' \<notin> set x" by auto
  moreover have "stripped x"
    unfolding xq by (rule stripped_strip_trailing_period [OF stripped_strip])
  ultimately show ?thesis by simp
qed

lemma strip_trailing_period_changes:
  "endswith_period x \<Longrightarrow> strip_trailing_period x \<noteq> x"
proof -
  assume e: "endswith_period x"
  then have "x \<noteq> []" by (simp add: endswith_period_def)
  then have "length (butlast x) < length x" by simp
  with length_strip [of "butlast x"] have "length (strip (butlast x)) < length x" by simp
  then show ?thesis using e by (auto simp: strip_trailing_period_def)
qed

lemma parse_clean_item:
  assumes "stripped x" "CHR '';'' \<notin> set x" "CHR ''|'' \<notin> set x"
  shows "parse_delimited_content (Str x)
           = (if x = [] \<or> is_placeholder x then [] else [strip_trailing_period x])"
  using assms
  by (simp add: parse_Str_eq normalize_spec_def replace_absent split_no_delimiter strip_id)

text \<open>
  C6, as amended: an item the normaliser has produced is returned unchanged by a second
  normalisation exactly when it is not empty, is not a placeholder token and does not end
  with a period.
\<close>

theorem renormalising_an_item:
  assumes "x \<in> set (parse_delimited_content v)"
  shows "(parse_delimited_content (Str x) = [x])
           = (x \<noteq> [] \<and> \<not> is_placeholder x \<and> \<not> endswith_period x)"
proof -
  from normalised_item [OF assms]
  have p: "parse_delimited_content (Str x)
           = (if x = [] \<or> is_placeholder x then [] else [strip_trailing_period x])"
    by (simp add: parse_clean_item)
  show ?thesis
  proof (cases "endswith_period x")
    case True
    then show ?thesis using p strip_trailing_period_changes [OF True] by simp
  next
    case False
    then show ?thesis using p by (simp add: strip_trailing_period_def)
  qed
qed

text \<open>The item \<^verbatim>\<open>"a"\<close> of the input \<^verbatim>\<open>"a|b;c"\<close>.\<close>

theorem renormalising_an_item_witness:
  "''a'' \<in> set (parse_delimited_content (Str ''a|b;c''))
   \<and> parse_delimited_content (Str ''a'') = [''a'']"
  using renormalising_an_item [of "''a''" "Str ''a|b;c''"]
  by (simp add: parse_delimited_content_def isna_def replace_def placeholders_def
      endswith_period_def is_space_def strip_def is_placeholder_def)

text \<open>
  C6 as stated fails: \<^verbatim>\<open>"a.."\<close> gives the item \<^verbatim>\<open>"a."\<close>, which a second normalisation turns
  into \<^verbatim>\<open>"a"\<close>; \<^verbatim>\<open>"header."\<close> gives the item \<^verbatim>\<open>"header"\<close> and \<^verbatim>\<open>"."\<close> gives the empty
  item, which a second normalisation drops.
\<close>

theorem renormalising_changes_items:
  "''a.'' \<in> set (parse_delimited_content (Str ''a..''))
   \<and> parse_delimited_content (Str ''a.'') \<noteq> [''a.'']
   \<and> ''header'' \<in> set (parse_delimited_content (Str ''header.''))
   \<and> parse_delimited_content (Str ''header'') \<noteq> [''header'']
   \<and> [] \<in> set (parse_delimited_content (Str ''.''))
   \<and> parse_delimited_content (Str []) \<noteq> [[]]"
  by (simp add: parse_delimited_content_def isna_def replace_def placeholders_def
      endswith_period_def is_space_def strip_def)

section \<open>The formatter\<close>

lemma is_space_to_upper: "is_space (to_upper c) = is_space c"
proof (cases "map_of (zip ''abcdefghijklmnopqrstuvwxyz'' ''ABCDEFGHIJKLMNOPQRSTUVWXYZ'') c")
  case None
  then show ?thesis by (simp add: to_upper_def)
next
  case (Some u)
  then have "\<not> is_space c \<and> \<not> is_space u"
    by (auto simp: is_space_def split: if_splits)
  then show ?thesis using Some by (simp add: to_upper_def)
qed

lemma upper_strip: "upper (strip s) = strip (upper s)"
proof -
  have c: "is_space \<circ> to_upper = is_space" by (rule ext) (simp add: is_space_to_upper)
  show ?thesis
    by (simp add: upper_def strip_def rev_map dropWhile_map c)
qed

lemma dropWhile_keeps_word:
  "w \<noteq> [] \<Longrightarrow> \<not> P (hd w) \<Longrightarrow> \<exists>pre'. dropWhile P (pre @ w @ post) = pre' @ w @ post"
proof (induction pre)
  case Nil
  then have "dropWhile P (w @ post) = w @ post" by (cases w) simp_all
  then show ?case by (metis append_Nil)
next
  case (Cons c pre)
  show ?case
  proof (cases "P c")
    case True
    with Cons show ?thesis by simp
  next
    case False
    then have "dropWhile P ((c # pre) @ w @ post) = (c # pre) @ w @ post" by simp
    then show ?thesis by blast
  qed
qed

lemma strip_keeps_word:
  assumes "w \<noteq> []" "\<not> is_space (hd w)" "\<not> is_space (last w)"
  shows "\<exists>pre' post'. strip (pre @ w @ post) = pre' @ w @ post'"
proof -
  obtain pre' where 1: "dropWhile is_space (pre @ w @ post) = pre' @ w @ post"
    using dropWhile_keeps_word [of w is_space pre post] assms(1,2) by blast
  have "rev w \<noteq> []" "\<not> is_space (hd (rev w))"
    using assms by (simp_all add: hd_rev)
  then obtain q where 2: "dropWhile is_space (rev post @ rev w @ rev pre') = q @ rev w @ rev pre'"
    using dropWhile_keeps_word [of "rev w" is_space "rev post" "rev pre'"] by blast
  have "strip (pre @ w @ post) = pre' @ w @ rev q"
    by (simp add: strip_def 1 2)
  then show ?thesis by blast
qed

lemma str_in_strip:
  assumes "w \<noteq> []" "\<not> is_space (hd w)" "\<not> is_space (last w)"
  shows "str_in w (strip s) = str_in w s"
proof
  assume "str_in w (strip s)"
  then obtain pre post where "strip s = pre @ w @ post" by (auto simp: str_in_iff)
  moreover obtain a b where "s = a @ strip s @ b" using strip_is_infix by blast
  ultimately have "s = (a @ pre) @ w @ (post @ b)" by simp
  then show "str_in w s" by (simp only: str_in_appendI)
next
  assume "str_in w s"
  then obtain pre post where "s = pre @ w @ post" by (auto simp: str_in_iff)
  with strip_keeps_word [OF assms, of pre post]
  show "str_in w (strip s)" by (auto simp: str_in_iff)
qed

lemma ignore_in_stripped:
  "str_in ''IGNORE'' (upper (strip d)) = str_in ''IGNORE'' (upper d)"
  by (simp add: upper_strip str_in_strip is_space_def)


lemma format_eq_spec: "format_evidence_entry r = format_spec r"
  by (simp add: format_evidence_entry_def format_spec_def link_part_def descriptive_part_def
      ignore_in_stripped Let_def)

text \<open>
  C7, as amended: the formatter returns the bracketed link, \<^verbatim>\<open>" - "\<close> and the descriptive
  part when both exist, the one that exists when only one does, and the empty string when
  neither does, where the link part is the trimmed link in brackets and the descriptive part
  is the trimmed description if it is present, not empty and does not contain
  \<^verbatim>\<open>IGNORE\<close> up to case, and the trimmed file name only if the description is absent or
  empty. Trimming a text leaves the part of it that has whitespace neither at its start nor
  at its end, with nothing but whitespace around it. Link \<^verbatim>\<open>"http://x"\<close> with description
  \<^verbatim>\<open>"Policy doc"\<close> gives \<^verbatim>\<open>"[http://x] - Policy doc"\<close>, and so do the same link and
  description with whitespace (a no-break space too) around them; a record with only a
  description containing \<^verbatim>\<open>"ignore this"\<close> gives the empty string; a record with only the
  file name \<^verbatim>\<open>"f.pdf"\<close> gives \<^verbatim>\<open>"f.pdf"\<close>.
\<close>

theorem formatter_trimmed_parts:
  "format_evidence_entry r = format_spec r
   \<and> stripped (strip p)
   \<and> (\<exists>a b. p = a @ strip p @ b \<and> list_all is_space a \<and> list_all is_space b)
   \<and> format_evidence_entry
       [''Current_Sharepoint_Link'' \<mapsto> Str ''http://x'', ''Description'' \<mapsto> Str ''Policy doc'']
     = ''[http://x] - Policy doc''
   \<and> format_evidence_entry
       [''Current_Sharepoint_Link'' \<mapsto> Str ('' http://x'' @ [CHR 0xA0]),
        ''Description'' \<mapsto> Str (''  Policy doc'' @ [CHR 0x09]),
        ''File_Name'' \<mapsto> Str ''f.pdf'']
     = ''[http://x] - Policy doc''
   \<and> format_evidence_entry
       [''Current_Sharepoint_Link'' \<mapsto> Str ''http://x'', ''Description'' \<mapsto> Str ''Please Ignore'',
        ''File_Name'' \<mapsto> Str ''f.pdf'']
     = ''[http://x]''
   \<and> format_evidence_entry [''Description'' \<mapsto> Str (pre @ ''ignore this'' @ post)] = []
   \<and> format_evidence_entry [''File_Name'' \<mapsto> Str ''f.pdf''] = ''f.pdf''
   \<and> format_evidence_entry [''Description'' \<mapsto> NaN, ''File_Name'' \<mapsto> Str '' f.pdf ''] = ''f.pdf''"
proof -
  have 1: "format_evidence_entry
       [''Current_Sharepoint_Link'' \<mapsto> Str ''http://x'', ''Description'' \<mapsto> Str ''Policy doc'']
     = ''[http://x] - Policy doc''"
    "format_evidence_entry
       [''Current_Sharepoint_Link'' \<mapsto> Str ('' http://x'' @ [CHR 0xA0]),
        ''Description'' \<mapsto> Str (''  Policy doc'' @ [CHR 0x09]),
        ''File_Name'' \<mapsto> Str ''f.pdf'']
     = ''[http://x] - Policy doc''"
    "format_evidence_entry
       [''Current_Sharepoint_Link'' \<mapsto> Str ''http://x'', ''Description'' \<mapsto> Str ''Please Ignore'',
        ''File_Name'' \<mapsto> Str ''f.pdf'']
     = ''[http://x]''"
    by (simp_all add: format_evidence_entry_def has_value_def row_get_def isna_def
        is_space_def strip_def upper_def to_upper_def startswith_def Let_def)
  have "upper (pre @ ''ignore this'' @ post) = upper pre @ ''IGNORE'' @ ('' THIS'' @ upper post)"
    by (simp add: upper_def to_upper_def)
  then have "str_in ''IGNORE'' (upper (pre @ ''ignore this'' @ post))"
    by (simp only: str_in_appendI)
  then have 2: "format_evidence_entry [''Description'' \<mapsto> Str (pre @ ''ignore this'' @ post)] = []"
    by (simp add: format_eq_spec format_spec_def link_part_def descriptive_part_def
        has_value_def row_get_def isna_def)
  have 3: "format_evidence_entry [''File_Name'' \<mapsto> Str ''f.pdf''] = ''f.pdf''"
    "format_evidence_entry [''Description'' \<mapsto> NaN, ''File_Name'' \<mapsto> Str '' f.pdf ''] = ''f.pdf''"
    by (simp_all add: format_evidence_entry_def has_value_def row_get_def isna_def
        is_space_def strip_def Let_def)
  from format_eq_spec stripped_strip strip_surrounded 1 2 3 show ?thesis
    by (intro conjI)
qed

text \<open>
  C7 as stated fails for a link with surrounding whitespace: the formatter puts the
  trimmed link between the brackets, not the link as the field holds it.
\<close>

theorem formatter_trims_link:
  "has_value [''Current_Sharepoint_Link'' \<mapsto> Str '' http://x'', ''Description'' \<mapsto> Str ''Policy doc'']
     ''Current_Sharepoint_Link''
   \<and> has_value [''Current_Sharepoint_Link'' \<mapsto> Str '' http://x'', ''Description'' \<mapsto> Str ''Policy doc'']
     ''Description''
   \<and> \<not> str_in ''IGNORE'' (upper ''Policy doc'')
   \<and> format_evidence_entry
       [''Current_Sharepoint_Link'' \<mapsto> Str '' http://x'', ''Description'' \<mapsto> Str ''Policy doc'']
     = ''[http://x] - Policy doc''
   \<and> format_evidence_entry
       [''Current_Sharepoint_Link'' \<mapsto> Str '' http://x'', ''Description'' \<mapsto> Str ''Policy doc'']
     \<noteq> ''['' @ '' http://x'' @ ''] - '' @ ''Policy doc''"
  by (simp add: format_evidence_entry_def has_value_def row_get_def isna_def
      is_space_def strip_def upper_def to_upper_def startswith_def Let_def)

section \<open>The validator\<close>










end
